theory Spec2Isabelle
  imports Main "HOL-Library.Word" "HOL-Library.Char_ord" "HOL-Library.List_Lexorder"
begin

unbundle bit_operations_syntax

section \<open>GovProcureChain: the hash-linked audit ledger of \<^verbatim>\<open>blockchain.py\<close>\<close>

text \<open>
  A shallow embedding of \<^verbatim>\<open>src/blockchain.py\<close>: the canonical JSON encoder, the block
  fingerprint, genesis creation, \<^verbatim>\<open>add_block\<close> and \<^verbatim>\<open>is_valid\<close>.
  Exceptions are values of a sum type, the wall clock is an explicit stream of readings,
  and the mutable \<^verbatim>\<open>Blockchain\<close> object is a record that every method returns updated.
\<close>

subsection \<open>Python values and errors\<close>

text \<open>
  The exceptions the modelled code can raise: \<^verbatim>\<open>TypeError\<close> from \<^verbatim>\<open>json.dumps\<close> on an
  object it has no encoding for, \<^verbatim>\<open>IndexError\<close> from \<^verbatim>\<open>self.chain[-1]\<close> on an empty list.
\<close>

datatype error = TypeError | IndexError

text \<open>
  A Python float as \<^verbatim>\<open>json.dumps\<close> sees it: a finite float is identified by its
  \<^verbatim>\<open>float.__repr__\<close> (the shortest string that reads back as the same float), the three
  non-finite floats are separate values.
\<close>

datatype pyfloat = Finite string | NaN | PosInfinity | NegInfinity

text \<open>
  The values an event payload (\<^verbatim>\<open>Dict[str, Any]\<close>) is built from. Dictionaries keep their
  insertion order, as Python's do, so they are association lists; their keys are strings,
  as the annotations of the source say. \<open>PObject\<close> stands for an object that
  \<^verbatim>\<open>json.dumps\<close> has no encoding for and that \<^verbatim>\<open>dataclasses.asdict\<close> copies as it is
  (a set, bytes, a datetime). Strings are lists of code points below 256. Tuples,
  dataclass instances inside a payload and keys that are not strings are outside the model.
\<close>

datatype pyval =
    PNone
  | PBool bool
  | PInt int
  | PFloat pyfloat
  | PStr string
  | PList "pyval list"
  | PDict "(string \<times> pyval) list"
  | PObject

type_synonym pydict = "(string \<times> pyval) list"


text \<open>The values without a \<open>PObject\<close> anywhere inside: those \<^verbatim>\<open>json.dumps\<close> accepts.\<close>

fun serialisable :: "pyval \<Rightarrow> bool" where
  "serialisable (PList xs) = list_all serialisable xs"
| "serialisable (PDict kvs) = list_all (\<lambda>kv. serialisable (snd kv)) kvs"
| "serialisable PObject = False"
| "serialisable _ = True"

subsection \<open>The wall clock\<close>

text \<open>
  \<^verbatim>\<open>utc_now_iso()\<close> reads the wall clock. The clock is the stream of the readings still
  to come; a call returns the first one and leaves the rest.
\<close>

type_synonym clock = "nat \<Rightarrow> string"

definition utc_now_iso :: "clock \<Rightarrow> string \<times> clock" where
  "utc_now_iso clk = (clk 0, \<lambda>n. clk (Suc n))"

subsection \<open>SHA-256 (\<^verbatim>\<open>hashlib.sha256\<close>, FIPS 180-4)\<close>

text \<open>
  A byte is an 8-bit word. A 32-bit word of the algorithm is an integer in \<open>[0, 2^32)\<close>;
  every addition is reduced modulo \<open>2^32\<close>, and the bitwise operations keep the range.
\<close>

type_synonym u8 = "8 word"
type_synonym u32 = int

text \<open>The round constants, eight rounds to a row.\<close>

definition K256 :: "u32 list" where
  "K256 =
     [0x428a2f98, 0x71374491, 0xb5c0fbcf, 0xe9b5dba5, 0x3956c25b, 0x59f111f1, 0x923f82a4, 0xab1c5ed5]
     @ [0xd807aa98, 0x12835b01, 0x243185be, 0x550c7dc3, 0x72be5d74, 0x80deb1fe, 0x9bdc06a7, 0xc19bf174]
     @ [0xe49b69c1, 0xefbe4786, 0x0fc19dc6, 0x240ca1cc, 0x2de92c6f, 0x4a7484aa, 0x5cb0a9dc, 0x76f988da]
     @ [0x983e5152, 0xa831c66d, 0xb00327c8, 0xbf597fc7, 0xc6e00bf3, 0xd5a79147, 0x06ca6351, 0x14292967]
     @ [0x27b70a85, 0x2e1b2138, 0x4d2c6dfc, 0x53380d13, 0x650a7354, 0x766a0abb, 0x81c2c92e, 0x92722c85]
     @ [0xa2bfe8a1, 0xa81a664b, 0xc24b8b70, 0xc76c51a3, 0xd192e819, 0xd6990624, 0xf40e3585, 0x106aa070]
     @ [0x19a4c116, 0x1e376c08, 0x2748774c, 0x34b0bcb5, 0x391c0cb3, 0x4ed8aa4a, 0x5b9cca4f, 0x682e6ff3]
     @ [0x748f82ee, 0x78a5636f, 0x84c87814, 0x8cc70208, 0x90befffa, 0xa4506ceb, 0xbef9a3f7, 0xc67178f2]"

definition add32 :: "u32 \<Rightarrow> u32 \<Rightarrow> u32" where
  "add32 x y = (x + y) mod 4294967296"

definition not32 :: "u32 \<Rightarrow> u32" where
  "not32 x = 4294967295 - x"

definition rotr :: "nat \<Rightarrow> u32 \<Rightarrow> u32" where
  "rotr n x = drop_bit n x OR take_bit 32 (push_bit (32 - n) x)"

definition Ch :: "u32 \<Rightarrow> u32 \<Rightarrow> u32 \<Rightarrow> u32" where
  "Ch x y z = (x AND y) XOR (not32 x AND z)"

definition Maj :: "u32 \<Rightarrow> u32 \<Rightarrow> u32 \<Rightarrow> u32" where
  "Maj x y z = (x AND y) XOR (x AND z) XOR (y AND z)"

definition Sigma0 :: "u32 \<Rightarrow> u32" where
  "Sigma0 x = rotr 2 x XOR rotr 13 x XOR rotr 22 x"

definition Sigma1 :: "u32 \<Rightarrow> u32" where
  "Sigma1 x = rotr 6 x XOR rotr 11 x XOR rotr 25 x"

definition sigma0 :: "u32 \<Rightarrow> u32" where
  "sigma0 x = rotr 7 x XOR rotr 18 x XOR drop_bit 3 x"

definition sigma1 :: "u32 \<Rightarrow> u32" where
  "sigma1 x = rotr 17 x XOR rotr 19 x XOR drop_bit 10 x"

text \<open>Four bytes, big-endian, as one word.\<close>

fun be32 :: "u8 list \<Rightarrow> u32" where
  "be32 (a # b # c # d # _) =
     push_bit 24 (uint a) OR push_bit 16 (uint b) OR push_bit 8 (uint c) OR uint d"
| "be32 _ = 0"

fun words16 :: "nat \<Rightarrow> u8 list \<Rightarrow> u32 list" where
  "words16 0 bs = []"
| "words16 (Suc n) bs = be32 bs # words16 n (drop 4 bs)"

text \<open>The message schedule, newest word first: the head of the list is \<open>W[t-1]\<close>.\<close>

fun schedule :: "nat \<Rightarrow> u32 list \<Rightarrow> u32 list" where
  "schedule 0 ws = ws"
| "schedule (Suc n) ws =
     schedule n (add32 (add32 (add32 (sigma1 (ws ! 1)) (ws ! 6)) (sigma0 (ws ! 14))) (ws ! 15) # ws)"

type_synonym sha_state = "u32 \<times> u32 \<times> u32 \<times> u32 \<times> u32 \<times> u32 \<times> u32 \<times> u32"

fun round256 :: "sha_state \<Rightarrow> u32 \<times> u32 \<Rightarrow> sha_state" where
  "round256 (a, b, c, d, e, f, g, h) (k, w) =
     (let t1 = add32 (add32 (add32 (add32 h (Sigma1 e)) (Ch e f g)) k) w;
          t2 = add32 (Sigma0 a) (Maj a b c)
      in (add32 t1 t2, a, b, c, add32 d t1, e, f, g))"

fun add_state :: "sha_state \<Rightarrow> sha_state \<Rightarrow> sha_state" where
  "add_state (a, b, c, d, e, f, g, h) (a', b', c', d', e', f', g', h') =
     (add32 a a', add32 b b', add32 c c', add32 d d',
      add32 e e', add32 f f', add32 g g', add32 h h')"

definition compress :: "sha_state \<Rightarrow> u8 list \<Rightarrow> sha_state" where
  "compress st blk =
     (let ws = rev (schedule 48 (rev (words16 16 blk)))
      in add_state st (foldl round256 st (zip K256 ws)))"

definition H0 :: sha_state where
  "H0 = (0x6a09e667, 0xbb67ae85, 0x3c6ef372, 0xa54ff53a,
         0x510e527f, 0x9b05688c, 0x1f83d9ab, 0x5be0cd19)"

definition be64 :: "64 word \<Rightarrow> u8 list" where
  "be64 n = map (\<lambda>i. ucast (drop_bit (8 * (7 - i)) n)) [0..<8]"

text \<open>Padding: the bit 1, zeros up to 56 modulo 64 bytes, the length in bits on 8 bytes.\<close>

definition pad :: "u8 list \<Rightarrow> u8 list" where
  "pad m = m @ [0x80] @ replicate ((119 - length m mod 64) mod 64) 0
             @ be64 (8 * of_nat (length m))"

fun blocks :: "nat \<Rightarrow> sha_state \<Rightarrow> u8 list \<Rightarrow> sha_state" where
  "blocks 0 st bs = st"
| "blocks (Suc n) st bs = blocks n (compress st (take 64 bs)) (drop 64 bs)"

definition sha256 :: "u8 list \<Rightarrow> sha_state" where
  "sha256 m = (let p = pad m in blocks (length p div 64) H0 p)"

definition hexdigit :: "u32 \<Rightarrow> char" where
  "hexdigit w = ''0123456789abcdef'' ! nat (w AND 15)"

definition hex32 :: "u32 \<Rightarrow> string" where
  "hex32 w = map (\<lambda>i. hexdigit (drop_bit (4 * (7 - i)) w)) [0..<8]"

fun hexdigest :: "sha_state \<Rightarrow> string" where
  "hexdigest (a, b, c, d, e, f, g, h) =
     hex32 a @ hex32 b @ hex32 c @ hex32 d @ hex32 e @ hex32 f @ hex32 g @ hex32 h"

text \<open>\<^verbatim>\<open>sha256_hex(data) = hashlib.sha256(data).hexdigest()\<close>\<close>

definition sha256_hex :: "u8 list \<Rightarrow> string" where
  "sha256_hex data = hexdigest (sha256 data)"

subsection \<open>\<^verbatim>\<open>str.encode("utf-8")\<close>\<close>

definition utf8_char :: "char \<Rightarrow> u8 list" where
  "utf8_char c =
     (let n = (of_char c :: nat)
      in if n < 128 then [of_nat n]
         else [of_nat (192 + n div 64), of_nat (128 + n mod 64)])"

definition utf8_encode :: "string \<Rightarrow> u8 list" where
  "utf8_encode s = concat (map utf8_char s)"

subsection \<open>\<^verbatim>\<open>canonical_json\<close>\<close>

text \<open>
  \<^verbatim>\<open>json.dumps(obj, sort_keys=True, separators=(",", ":"), ensure_ascii=False)\<close>.
  With \<^verbatim>\<open>ensure_ascii=False\<close> a string is escaped by \<^verbatim>\<open>encode_basestring\<close>: backslash,
  double quote and the control characters below 0x20 are escaped, everything else is
  copied.
\<close>

definition hex_digit :: "nat \<Rightarrow> char" where
  "hex_digit n = ''0123456789abcdef'' ! (n mod 16)"

definition escape_char :: "char \<Rightarrow> string" where
  "escape_char c =
     (if c = CHR 0x5C then [CHR 0x5C, CHR 0x5C]
      else if c = CHR 0x22 then [CHR 0x5C, CHR 0x22]
      else if c = CHR 0x08 then [CHR 0x5C, CHR ''b'']
      else if c = CHR 0x0C then [CHR 0x5C, CHR ''f'']
      else if c = CHR 0x0A then [CHR 0x5C, CHR ''n'']
      else if c = CHR 0x0D then [CHR 0x5C, CHR ''r'']
      else if c = CHR 0x09 then [CHR 0x5C, CHR ''t'']
      else if (of_char c :: nat) < 32
        then [CHR 0x5C, CHR ''u'', CHR ''0'', CHR ''0'',
              hex_digit (of_char c div 16), hex_digit (of_char c)]
      else [c])"

definition encode_basestring :: "string \<Rightarrow> string" where
  "encode_basestring s = [CHR 0x22] @ concat (map escape_char s) @ [CHR 0x22]"

text \<open>\<^verbatim>\<open>int.__repr__\<close>: decimal digits, a minus sign for a negative number.\<close>

function digits_repr :: "int \<Rightarrow> string" where
  "digits_repr n =
     (if n < 10 then [''0123456789'' ! nat n]
      else digits_repr (n div 10) @ [''0123456789'' ! nat (n mod 10)])"
  by pat_completeness auto
termination
  by (relation "measure nat") auto

declare digits_repr.simps [simp del]

definition int_repr :: "int \<Rightarrow> string" where
  "int_repr i = (if i < 0 then CHR ''-'' # digits_repr (- i) else digits_repr i)"

text \<open>
  \<^verbatim>\<open>allow_nan\<close> keeps its default \<^verbatim>\<open>True\<close>: the non-finite floats are written as the
  JavaScript tokens, not rejected.
\<close>

fun float_repr :: "pyfloat \<Rightarrow> string" where
  "float_repr (Finite r) = r"
| "float_repr NaN = ''NaN''"
| "float_repr PosInfinity = ''Infinity''"
| "float_repr NegInfinity = ''-Infinity''"

text \<open>\<^verbatim>\<open>sep.join(xs)\<close>\<close>

fun join :: "string \<Rightarrow> string list \<Rightarrow> string" where
  "join sep [] = []"
| "join sep [x] = x"
| "join sep (x # y # ys) = x @ sep @ join sep (y # ys)"

text \<open>The first exception raised while the items are encoded in turn, or all the results.\<close>

fun sequence :: "(error + 'a) list \<Rightarrow> error + 'a list" where
  "sequence [] = Inr []"
| "sequence (x # xs) =
     (case x of
        Inl e \<Rightarrow> Inl e
      | Inr y \<Rightarrow> (case sequence xs of Inl e \<Rightarrow> Inl e | Inr ys \<Rightarrow> Inr (y # ys)))"

text \<open>
  The encoder. \<^verbatim>\<open>sort_keys=True\<close> sorts the items of a dictionary by key (strings
  compare by code point) before they are written; the separators are \<^verbatim>\<open>,\<close> and \<^verbatim>\<open>:\<close>
  with no white space; a list keeps its order.
\<close>

fun json_dumps :: "pyval \<Rightarrow> error + string" where
  "json_dumps PNone = Inr ''null''"
| "json_dumps (PBool b) = Inr (if b then ''true'' else ''false'')"
| "json_dumps (PInt i) = Inr (int_repr i)"
| "json_dumps (PFloat f) = Inr (float_repr f)"
| "json_dumps (PStr s) = Inr (encode_basestring s)"
| "json_dumps (PList xs) =
     (case sequence (map json_dumps xs) of
        Inl e \<Rightarrow> Inl e
      | Inr ss \<Rightarrow> Inr (''['' @ join '','' ss @ '']''))"
| "json_dumps (PDict kvs) =
     (case sequence (map (\<lambda>(k, v).
             case json_dumps v of
               Inl e \<Rightarrow> Inl e
             | Inr s \<Rightarrow> Inr (encode_basestring k @ '':'' @ s)) (sort_key fst kvs)) of
        Inl e \<Rightarrow> Inl e
      | Inr ss \<Rightarrow> Inr (''{'' @ join '','' ss @ ''}''))"
| "json_dumps PObject = Inl TypeError"

definition canonical_json :: "pyval \<Rightarrow> error + string" where
  "canonical_json obj = json_dumps obj"

subsection \<open>\<^verbatim>\<open>Event\<close> and \<^verbatim>\<open>Block\<close>\<close>

record event =
  event_type :: string
  actor_role :: string
  actor_id :: string
  payload :: pydict
  timestamp_utc :: string

text \<open>\<^verbatim>\<open>dataclasses.asdict\<close>: the fields in declaration order, the payload copied.\<close>

definition asdict :: "event \<Rightarrow> pydict" where
  "asdict e =
     [(''event_type'', PStr (event_type e)),
      (''actor_role'', PStr (actor_role e)),
      (''actor_id'', PStr (actor_id e)),
      (''payload'', PDict (payload e)),
      (''timestamp_utc'', PStr (event.timestamp_utc e))]"

text \<open>
  \<^verbatim>\<open>Event.to_dict\<close>: an empty \<^verbatim>\<open>timestamp_utc\<close> is replaced by a reading of the clock
  (assigning to a key that exists keeps its place in the dictionary).
\<close>

definition to_dict :: "event \<Rightarrow> clock \<Rightarrow> pydict \<times> clock" where
  "to_dict e clk =
     (let d = asdict e
      in if event.timestamp_utc e = []
         then (let (now, clk') = utc_now_iso clk
               in (map (\<lambda>(k, v). if k = ''timestamp_utc'' then (k, PStr now) else (k, v)) d,
                   clk'))
         else (d, clk))"

text \<open>\<^verbatim>\<open>[e.to_dict() for e in events]\<close>\<close>

fun to_dicts :: "event list \<Rightarrow> clock \<Rightarrow> pydict list \<times> clock" where
  "to_dicts [] clk = ([], clk)"
| "to_dicts (e # es) clk =
     (let (d, clk1) = to_dict e clk;
          (ds, clk2) = to_dicts es clk1
      in (d # ds, clk2))"

record block =
  index :: int
  timestamp_utc :: string
  previous_hash :: string
  events :: "pydict list"
  nonce :: int
  hash :: string

text \<open>The dictionary \<^verbatim>\<open>block_obj\<close> that \<^verbatim>\<open>Block.compute_hash\<close> builds.\<close>

definition block_obj :: "block \<Rightarrow> pyval" where
  "block_obj b =
     PDict [(''index'', PInt (index b)),
            (''timestamp_utc'', PStr (timestamp_utc b)),
            (''previous_hash'', PStr (previous_hash b)),
            (''events'', PList (map PDict (events b))),
            (''nonce'', PInt (nonce b))]"

definition compute_hash :: "block \<Rightarrow> error + string" where
  "compute_hash b =
     (case canonical_json (block_obj b) of
        Inl e \<Rightarrow> Inl e
      | Inr s \<Rightarrow> Inr (sha256_hex (utf8_encode s)))"

subsection \<open>\<^verbatim>\<open>Blockchain\<close>\<close>

record blockchain =
  chain :: "block list"

definition genesis_event :: "string \<Rightarrow> pydict" where
  "genesis_event now =
     [(''event_type'', PStr ''GENESIS''),
      (''actor_role'', PStr ''SYSTEM''),
      (''actor_id'', PStr ''GOVPROCURECHAIN''),
      (''payload'', PDict [(''message'', PStr ''Genesis block - chain initialized'')]),
      (''timestamp_utc'', PStr now)]"

text \<open>
  \<^verbatim>\<open>_create_genesis_block\<close>: the keyword arguments are evaluated left to right, so the
  block's time stamp is read before the event's. A method returns its result or its
  exception, the object as the call leaves it, and the clock.
\<close>

definition create_genesis_block :: "blockchain \<Rightarrow> clock \<Rightarrow> (error + unit) \<times> blockchain \<times> clock" where
  "create_genesis_block bc clk =
     (let (t1, clk1) = utc_now_iso clk;
          (t2, clk2) = utc_now_iso clk1;
          genesis = \<lparr>index = 0, timestamp_utc = t1, previous_hash = replicate 64 (CHR ''0''),
                     events = [genesis_event t2], nonce = 0, hash = []\<rparr>
      in case compute_hash genesis of
           Inl e \<Rightarrow> (Inl e, bc, clk2)
         | Inr h \<Rightarrow> (Inr (), bc\<lparr>chain := chain bc @ [genesis\<lparr>hash := h\<rparr>]\<rparr>, clk2))"

text \<open>\<^verbatim>\<open>Blockchain.__init__\<close>: an exception in the constructor leaves no object.\<close>

definition Blockchain_init :: "clock \<Rightarrow> (error + blockchain) \<times> clock" where
  "Blockchain_init clk =
     (case create_genesis_block \<lparr>chain = []\<rparr> clk of
        (Inl e, bc, clk') \<Rightarrow> (Inl e, clk')
      | (Inr u, bc, clk') \<Rightarrow> (Inr bc, clk'))"

text \<open>
  \<^verbatim>\<open>add_block\<close>. \<^verbatim>\<open>self.chain[-1]\<close> raises on an empty list; \<^verbatim>\<open>compute_hash\<close> may
  raise, before \<^verbatim>\<open>self.chain.append(block)\<close> is reached.
\<close>

definition add_block :: "event list \<Rightarrow> blockchain \<Rightarrow> clock \<Rightarrow> (error + block) \<times> blockchain \<times> clock" where
  "add_block evs bc clk =
     (if chain bc = [] then (Inl IndexError, bc, clk)
      else
        (let prev = last (chain bc);
             (event_dicts, clk1) = to_dicts evs clk;
             (now, clk2) = utc_now_iso clk1;
             blk = \<lparr>index = int (length (chain bc)), timestamp_utc = now,
                    previous_hash = hash prev, events = event_dicts, nonce = 0, hash = []\<rparr>
         in case compute_hash blk of
              Inl e \<Rightarrow> (Inl e, bc, clk2)
            | Inr h \<Rightarrow> (Inr (blk\<lparr>hash := h\<rparr>), bc\<lparr>chain := chain bc @ [blk\<lparr>hash := h\<rparr>]\<rparr>, clk2)))"

text \<open>
  The loop of \<^verbatim>\<open>is_valid\<close>, \<^verbatim>\<open>for i in range(1, len(self.chain))\<close>, from index \<open>i\<close> on.
  An exception of \<^verbatim>\<open>compute_hash\<close> leaves the loop as an exception.
\<close>

function is_valid_from :: "block list \<Rightarrow> nat \<Rightarrow> error + bool" where
  "is_valid_from ch i =
     (if i < length ch then
        (let cur = ch ! i; prev = ch ! (i - 1)
         in if previous_hash cur \<noteq> hash prev then Inr False
            else (case compute_hash cur of
                    Inl e \<Rightarrow> Inl e
                  | Inr expected \<Rightarrow>
                      if hash cur \<noteq> expected then Inr False
                      else is_valid_from ch (Suc i)))
      else Inr True)"
  by pat_completeness auto
termination
  by (relation "measure (\<lambda>(ch, i). length ch - i)") auto

declare is_valid_from.simps [simp del]

text \<open>\<^verbatim>\<open>is_valid\<close> returns its result and the object, which it does not write.\<close>

definition is_valid :: "blockchain \<Rightarrow> (error + bool) \<times> blockchain" where
  "is_valid bc = (is_valid_from (chain bc) 1, bc)"

text \<open>
  The ledgers a program can build through the class: a constructed one, then any calls
  of \<^verbatim>\<open>add_block\<close> (failed ones included) and \<^verbatim>\<open>is_valid\<close>, at any readings of the clock.
\<close>

inductive reachable :: "blockchain \<Rightarrow> bool" where
  constructed: "Blockchain_init clk = (Inr bc, clk') \<Longrightarrow> reachable bc"
| appended: "reachable bc \<Longrightarrow> add_block evs bc clk = (r, bc', clk') \<Longrightarrow> reachable bc'"
| validated: "reachable bc \<Longrightarrow> is_valid bc = (r, bc') \<Longrightarrow> reachable bc'"

text \<open>
  \<open>N\<close> calls of \<^verbatim>\<open>add_block\<close> one after the other, as the callers
  (\<^verbatim>\<open>app.py\<close>, \<^verbatim>\<open>dashboard.py\<close>) make them; a call that raises leaves the ledger
  as it was and the next call goes on from there.
\<close>

fun add_blocks :: "event list list \<Rightarrow> blockchain \<Rightarrow> clock \<Rightarrow> blockchain \<times> clock" where
  "add_blocks [] bc clk = (bc, clk)"
| "add_blocks (evs # rest) bc clk =
     (let (r, bc', clk') = add_block evs bc clk in add_blocks rest bc' clk')"

subsection \<open>The vocabulary of the properties\<close>

text \<open>The two checks \<^verbatim>\<open>is_valid\<close> makes on the block at index \<open>i\<close>.\<close>

definition link_ok :: "block list \<Rightarrow> nat \<Rightarrow> bool" where
  "link_ok ch i \<longleftrightarrow> previous_hash (ch ! i) = hash (ch ! (i - 1))"

definition digest_ok :: "block list \<Rightarrow> nat \<Rightarrow> bool" where
  "digest_ok ch i \<longleftrightarrow> compute_hash (ch ! i) = Inr (hash (ch ! i))"

definition block_ok :: "block list \<Rightarrow> nat \<Rightarrow> bool" where
  "block_ok ch i \<longleftrightarrow> link_ok ch i \<and> digest_ok ch i"

text \<open>The invariant of the reachable ledgers.\<close>

definition chain_inv :: "block list \<Rightarrow> bool" where
  "chain_inv ch \<longleftrightarrow>
     ch \<noteq> [] \<and>
     (\<forall>i < length ch. index (ch ! i) = int i \<and> nonce (ch ! i) = 0 \<and> digest_ok ch i) \<and>
     (\<forall>i. 1 \<le> i \<and> i < length ch \<longrightarrow> link_ok ch i)"



subsection \<open>Concrete ledgers\<close>

definition example_clock :: clock where
  "example_clock n = ''2026-01-01T00:00:00+00:00''"

definition fresh_ledger :: blockchain where
  "fresh_ledger = projr (fst (Blockchain_init example_clock))"

definition example_event :: event where
  "example_event =
     \<lparr>event_type = ''SOLICITATION_PUBLISHED'', actor_role = ''CONTRACTING_OFFICER'',
      actor_id = ''CO_001'', payload = [(''solicitation_id'', PStr ''SOL-1'')],
      timestamp_utc = []\<rparr>"

definition ledger1 :: blockchain where
  "ledger1 = fst (snd (add_block [example_event] fresh_ledger example_clock))"

text \<open>
  Tampering with a stored event: \<^verbatim>\<open>ev["payload"] = p\<close> on a dictionary that has the key.
\<close>

definition set_payload :: "pydict \<Rightarrow> pydict \<Rightarrow> pydict" where
  "set_payload p d = map (\<lambda>(k, v). if k = ''payload'' then (k, PDict p) else (k, v)) d"

text \<open>The genesis block of \<open>ledger1\<close> with the payload of its event overwritten.\<close>

definition tampered_genesis :: block where
  "tampered_genesis =
     (chain ledger1 ! 0)\<lparr>events :=
        map (set_payload [(''message'', PStr ''forged'')]) (events (chain ledger1 ! 0))\<rparr>"


text \<open>A block built directly, as the \<^verbatim>\<open>Block\<close> dataclass allows.\<close>

definition minimal_block :: block where
  "minimal_block =
     \<lparr>index = 0, timestamp_utc = [], previous_hash = [], events = [], nonce = 0, hash = []\<rparr>"




section \<open>Properties\<close>

subsection \<open>The encoder and the digest\<close>

text \<open>The model of SHA-256 on the test vectors of the standard.\<close>

lemma sha256_hex_empty:
  "sha256_hex [] = ''e3b0c44298fc1c149afbf4c8996fb92427ae41e4649b934ca495991b7852b855''"
  by code_simp

lemma sha256_hex_abc:
  "sha256_hex (utf8_encode ''abc'')
     = ''ba7816bf8f01cfea414140de5dae2223b00361a396177a9cb410ff61f20015ad''"
  by code_simp

text \<open>A hex digest has 64 characters.\<close>

lemma length_hex32: "length (hex32 w) = 8"
  by (simp add: hex32_def)

lemma length_hexdigest: "length (hexdigest st) = 64"
  by (cases st rule: hexdigest.cases) (simp add: length_hex32)

lemma length_sha256_hex: "length (sha256_hex d) = 64"
  by (simp add: sha256_hex_def length_hexdigest)

lemma sequence_Inr_iff:
  "(\<exists>ys. sequence xs = Inr ys) \<longleftrightarrow> (\<forall>x \<in> set xs. \<exists>y. x = Inr y)"
  by (induction xs) (auto split: sum.splits)


lemma sequence_map_Inr: "sequence (map Inr xs) = Inr xs"
  by (induction xs) auto


lemma json_dumps_serialisable:
  "serialisable v \<Longrightarrow> \<exists>s. json_dumps v = Inr s"
proof (induction v)
  case (PList xs)
  then have "\<forall>x \<in> set (map json_dumps xs). \<exists>y. x = Inr y"
    by (auto simp: list_all_iff)
  then obtain ss where "sequence (map json_dumps xs) = Inr ss"
    using sequence_Inr_iff by blast
  then show ?case by simp
next
  case (PDict kvs)
  let ?f = "\<lambda>(k, v). case json_dumps v of Inl e \<Rightarrow> Inl e
                       | Inr s \<Rightarrow> Inr (encode_basestring k @ '':'' @ s)"
  have "\<forall>x \<in> set (map ?f (sort_key fst kvs)). \<exists>y. x = Inr y"
  proof
    fix x assume "x \<in> set (map ?f (sort_key fst kvs))"
    then obtain k v where kv: "(k, v) \<in> set kvs" and x: "x = ?f (k, v)"
      by auto
    from kv PDict.prems have "serialisable v"
      by (auto simp: list_all_iff)
    moreover from kv have "v \<in> Basic_BNFs.snds (k, v)" by simp
    ultimately obtain s where "json_dumps v = Inr s"
      using PDict.IH kv by blast
    with x show "\<exists>y. x = Inr y" by simp
  qed
  then obtain ss where "sequence (map ?f (sort_key fst kvs)) = Inr ss"
    using sequence_Inr_iff by blast
  then show ?case by simp
qed simp_all


lemma compute_hash_hash_update: "compute_hash (b\<lparr>hash := h\<rparr>) = compute_hash b"
  by (simp add: compute_hash_def block_obj_def)

lemma serialisable_block_obj:
  "serialisable (block_obj b) \<longleftrightarrow> (\<forall>d \<in> set (events b). serialisable (PDict d))"
  by (simp add: block_obj_def list_all_iff)

lemma compute_hash_Inr:
  assumes "\<forall>d \<in> set (events b). serialisable (PDict d)"
  shows "\<exists>h. compute_hash b = Inr h"
proof -
  from assms have "serialisable (block_obj b)"
    by (simp add: serialisable_block_obj)
  then obtain s where "json_dumps (block_obj b) = Inr s"
    using json_dumps_serialisable by blast
  then show ?thesis
    by (simp add: compute_hash_def canonical_json_def)
qed


lemma compute_hash_length: "compute_hash b = Inr h \<Longrightarrow> length h = 64"
  by (auto simp: compute_hash_def length_sha256_hex split: sum.splits)

lemma serialisable_genesis_event: "serialisable (PDict (genesis_event t))"
  by (simp add: genesis_event_def)

lemma serialisable_to_dict:
  "serialisable (PDict (fst (to_dict e clk))) \<longleftrightarrow> serialisable (PDict (payload e))"
  by (simp add: to_dict_def asdict_def utc_now_iso_def Let_def)

lemma to_dicts_Cons:
  "to_dicts (e # es) clk =
     (fst (to_dict e clk) # fst (to_dicts es (snd (to_dict e clk))),
      snd (to_dicts es (snd (to_dict e clk))))"
  by (simp add: Let_def case_prod_beta)

lemma add_block_unfold:
  "chain bc \<noteq> [] \<Longrightarrow> add_block evs bc clk =
     (case compute_hash \<lparr>index = int (length (chain bc)),
               timestamp_utc = fst (utc_now_iso (snd (to_dicts evs clk))),
               previous_hash = hash (last (chain bc)), events = fst (to_dicts evs clk),
               nonce = 0, hash = []\<rparr> of
        Inl e \<Rightarrow> (Inl e, bc, snd (utc_now_iso (snd (to_dicts evs clk))))
      | Inr h \<Rightarrow>
          (Inr \<lparr>index = int (length (chain bc)),
               timestamp_utc = fst (utc_now_iso (snd (to_dicts evs clk))),
               previous_hash = hash (last (chain bc)), events = fst (to_dicts evs clk),
               nonce = 0, hash = h\<rparr>,
           bc\<lparr>chain := chain bc @ [\<lparr>index = int (length (chain bc)),
               timestamp_utc = fst (utc_now_iso (snd (to_dicts evs clk))),
               previous_hash = hash (last (chain bc)), events = fst (to_dicts evs clk),
               nonce = 0, hash = h\<rparr>]\<rparr>,
           snd (utc_now_iso (snd (to_dicts evs clk)))))"
  by (simp add: add_block_def Let_def case_prod_beta split: sum.splits)

lemma set_to_dicts:
  "d \<in> set (fst (to_dicts evs clk)) \<Longrightarrow>
     \<exists>e \<in> set evs. \<exists>c. d = fst (to_dict e c)"
proof (induction evs arbitrary: clk)
  case Nil
  then show ?case by simp
next
  case (Cons e es)
  then show ?case
    by (fastforce simp: to_dicts_Cons simp del: to_dicts.simps(2))
qed


lemma length_to_dicts: "length (fst (to_dicts evs clk)) = length evs"
  by (induction evs arbitrary: clk) (simp_all add: to_dicts_Cons del: to_dicts.simps(2))

lemma to_dicts_serialisable:
  assumes "\<forall>e \<in> set evs. serialisable (PDict (payload e))"
  shows "\<forall>d \<in> set (fst (to_dicts evs clk)). serialisable (PDict d)"
proof
  fix d assume "d \<in> set (fst (to_dicts evs clk))"
  then obtain e c where "e \<in> set evs" "d = fst (to_dict e c)"
    using set_to_dicts by blast
  with assms show "serialisable (PDict d)"
    using serialisable_to_dict by blast
qed


text \<open>What the constructor returns.\<close>

lemma Blockchain_init_result:
  "\<exists>g. Blockchain_init clk = (Inr \<lparr>chain = [g]\<rparr>, \<lambda>n. clk (Suc (Suc n)))
       \<and> index g = 0 \<and> timestamp_utc g = clk 0
       \<and> previous_hash g = replicate 64 (CHR ''0'')
       \<and> events g = [genesis_event (clk 1)] \<and> nonce g = 0
       \<and> compute_hash g = Inr (hash g)"
proof -
  let ?g = "\<lparr>index = 0, timestamp_utc = clk 0, previous_hash = replicate 64 (CHR ''0''),
             events = [genesis_event (clk 1)], nonce = 0, hash = []\<rparr>"
  have "\<forall>d \<in> set (events ?g). serialisable (PDict d)"
    using serialisable_genesis_event by simp
  then obtain h where h: "compute_hash ?g = Inr h"
    using compute_hash_Inr by blast
  then have "compute_hash (?g\<lparr>hash := h\<rparr>) = Inr (hash (?g\<lparr>hash := h\<rparr>))"
    by (simp only: compute_hash_hash_update) simp
  moreover from h have "Blockchain_init clk = (Inr \<lparr>chain = [?g\<lparr>hash := h\<rparr>]\<rparr>, \<lambda>n. clk (Suc (Suc n)))"
    by (simp add: Blockchain_init_def create_genesis_block_def utc_now_iso_def)
  ultimately show ?thesis
    by (intro exI [of _ "?g\<lparr>hash := h\<rparr>"]) simp
qed

text \<open>What \<^verbatim>\<open>add_block\<close> returns: it leaves the ledger as it was, or appends one block.\<close>

lemma add_block_result:
  assumes "add_block evs bc clk = (r, bc', clk')"
  shows "(bc' = bc \<and> (\<exists>e. r = Inl e)) \<or>
         (\<exists>b. r = Inr b \<and> chain bc \<noteq> [] \<and> bc' = bc\<lparr>chain := chain bc @ [b]\<rparr>
            \<and> index b = int (length (chain bc))
            \<and> previous_hash b = hash (last (chain bc))
            \<and> events b = fst (to_dicts evs clk) \<and> nonce b = 0
            \<and> compute_hash b = Inr (hash b))"
proof (cases "chain bc = []")
  case True
  with assms show ?thesis by (auto simp: add_block_def)
next
  case False
  let ?blk = "\<lparr>index = int (length (chain bc)),
               timestamp_utc = fst (utc_now_iso (snd (to_dicts evs clk))),
               previous_hash = hash (last (chain bc)), events = fst (to_dicts evs clk),
               nonce = 0, hash = []\<rparr>"
  show ?thesis
  proof (cases "compute_hash ?blk")
    case (Inl e)
    with False assms show ?thesis
      by (auto simp: add_block_unfold)
  next
    case (Inr h)
    then have "compute_hash (?blk\<lparr>hash := h\<rparr>) = Inr (hash (?blk\<lparr>hash := h\<rparr>))"
      by (simp only: compute_hash_hash_update) simp
    moreover from Inr False assms
    have "r = Inr (?blk\<lparr>hash := h\<rparr>)" "bc' = bc\<lparr>chain := chain bc @ [?blk\<lparr>hash := h\<rparr>]\<rparr>"
      by (auto simp: add_block_unfold)
    ultimately show ?thesis using False
      by (intro disjI2 exI [of _ "?blk\<lparr>hash := h\<rparr>"]) simp
  qed
qed

lemma add_block_succeeds:
  assumes "chain bc \<noteq> []" and "\<forall>e \<in> set evs. serialisable (PDict (payload e))"
  shows "\<exists>b. fst (add_block evs bc clk) = Inr b"
proof -
  let ?blk = "\<lparr>index = int (length (chain bc)),
               timestamp_utc = fst (utc_now_iso (snd (to_dicts evs clk))),
               previous_hash = hash (last (chain bc)), events = fst (to_dicts evs clk),
               nonce = 0, hash = []\<rparr>"
  from assms(2) have "\<forall>d \<in> set (events ?blk). serialisable (PDict d)"
    using to_dicts_serialisable by simp
  then obtain h where "compute_hash ?blk = Inr h"
    using compute_hash_Inr by blast
  with assms(1) show ?thesis
    by (simp add: add_block_unfold)
qed


lemma is_valid_from_step:
  "i < length ch \<Longrightarrow> block_ok ch i \<Longrightarrow> is_valid_from ch i = is_valid_from ch (Suc i)"
  by (subst is_valid_from.simps) (simp add: block_ok_def link_ok_def digest_ok_def)

lemma is_valid_from_end: "length ch \<le> i \<Longrightarrow> is_valid_from ch i = Inr True"
  by (subst is_valid_from.simps) simp

lemma is_valid_from_fail:
  "i < length ch \<Longrightarrow> \<not> block_ok ch i \<Longrightarrow> is_valid_from ch i \<noteq> Inr True"
  by (subst is_valid_from.simps)
     (auto simp: Let_def block_ok_def link_ok_def digest_ok_def split: sum.splits if_splits)



lemma is_valid_from_raise:
  "i < length ch \<Longrightarrow> link_ok ch i \<Longrightarrow> compute_hash (ch ! i) = Inl e \<Longrightarrow>
     is_valid_from ch i = Inl e"
  by (subst is_valid_from.simps) (simp add: link_ok_def)

lemma is_valid_from_skip:
  "i \<le> k \<Longrightarrow> k \<le> length ch \<Longrightarrow> (\<forall>j. i \<le> j \<and> j < k \<longrightarrow> block_ok ch j) \<Longrightarrow>
     is_valid_from ch i = is_valid_from ch k"
proof (induction "k - i" arbitrary: i)
  case 0
  then show ?case by simp
next
  case (Suc n)
  then have "i < length ch" "block_ok ch i" by auto
  then have "is_valid_from ch i = is_valid_from ch (Suc i)"
    by (rule is_valid_from_step)
  also from Suc have "is_valid_from ch (Suc i) = is_valid_from ch k"
    by (intro Suc.hyps(1)) auto
  finally show ?case .
qed

lemma is_valid_from_True_iff:
  "is_valid_from ch i = Inr True \<longleftrightarrow> (\<forall>j. i \<le> j \<and> j < length ch \<longrightarrow> block_ok ch j)"
proof
  assume ok: "is_valid_from ch i = Inr True"
  show "\<forall>j. i \<le> j \<and> j < length ch \<longrightarrow> block_ok ch j"
  proof (rule ccontr)
    assume "\<not> (\<forall>j. i \<le> j \<and> j < length ch \<longrightarrow> block_ok ch j)"
    then have ex: "\<exists>j. i \<le> j \<and> j < length ch \<and> \<not> block_ok ch j" by blast
    define k where "k = (LEAST j. i \<le> j \<and> j < length ch \<and> \<not> block_ok ch j)"
    from ex have k: "i \<le> k" "k < length ch" "\<not> block_ok ch k"
      unfolding k_def by (metis (mono_tags, lifting) LeastI_ex)+
    have "\<forall>j. i \<le> j \<and> j < k \<longrightarrow> block_ok ch j"
    proof (intro allI impI)
      fix j assume j: "i \<le> j \<and> j < k"
      show "block_ok ch j"
      proof (rule ccontr)
        assume "\<not> block_ok ch j"
        with j k(2) have "k \<le> j"
          unfolding k_def by (intro Least_le) auto
        with j show False by simp
      qed
    qed
    with k have "is_valid_from ch i = is_valid_from ch k"
      by (intro is_valid_from_skip) auto
    with k ok show False
      using is_valid_from_fail by metis
  qed
next
  assume "\<forall>j. i \<le> j \<and> j < length ch \<longrightarrow> block_ok ch j"
  then show "is_valid_from ch i = Inr True"
  proof (cases "i \<le> length ch")
    case True
    assume "\<forall>j. i \<le> j \<and> j < length ch \<longrightarrow> block_ok ch j"
    with True have "is_valid_from ch i = is_valid_from ch (length ch)"
      by (intro is_valid_from_skip) auto
    then show ?thesis by (simp add: is_valid_from_end)
  next
    case False
    then show ?thesis by (simp add: is_valid_from_end)
  qed
qed

text \<open>The invariant of the reachable ledgers.\<close>


lemma chain_inv_snoc:
  assumes "chain_inv ch" and "index b = int (length ch)" and "nonce b = 0"
    and "previous_hash b = hash (last ch)" and "compute_hash b = Inr (hash b)"
  shows "chain_inv (ch @ [b])"
proof -
  from assms(1) have ne: "ch \<noteq> []" by (simp add: chain_inv_def)
  have "\<forall>i < length (ch @ [b]). index ((ch @ [b]) ! i) = int i \<and> nonce ((ch @ [b]) ! i) = 0
          \<and> digest_ok (ch @ [b]) i"
    using assms by (auto simp: chain_inv_def digest_ok_def nth_append)
  moreover have "\<forall>i. 1 \<le> i \<and> i < length (ch @ [b]) \<longrightarrow> link_ok (ch @ [b]) i"
  proof (intro allI impI)
    fix i assume i: "1 \<le> i \<and> i < length (ch @ [b])"
    show "link_ok (ch @ [b]) i"
    proof (cases "i < length ch")
      case True
      with i assms(1) show ?thesis
        by (auto simp: chain_inv_def link_ok_def nth_append)
    next
      case False
      with i have "i = length ch" by simp
      with ne assms(4) show ?thesis
        by (simp add: link_ok_def nth_append last_conv_nth)
    qed
  qed
  ultimately show ?thesis using ne by (simp add: chain_inv_def)
qed

lemma reachable_chain_inv: "reachable bc \<Longrightarrow> chain_inv (chain bc)"
proof (induction rule: reachable.induct)
  case (constructed clk bc clk')
  obtain g where g: "Blockchain_init clk = (Inr \<lparr>chain = [g]\<rparr>, \<lambda>n. clk (Suc (Suc n)))"
    "index g = 0" "nonce g = 0" "compute_hash g = Inr (hash g)"
    using Blockchain_init_result [of clk] by blast
  with constructed have "chain bc = [g]" by auto
  with g show ?case
    by (simp add: chain_inv_def digest_ok_def)
next
  case (appended bc evs clk r bc' clk')
  from appended.hyps(2) show ?case
    using add_block_result [of evs bc clk r bc' clk'] appended.IH
    by (auto intro: chain_inv_snoc)
next
  case (validated bc r bc')
  then show ?case by (simp add: is_valid_def)
qed

lemma chain_inv_block_ok:
  "chain_inv ch \<Longrightarrow> 1 \<le> i \<Longrightarrow> i < length ch \<Longrightarrow> block_ok ch i"
  by (simp add: chain_inv_def block_ok_def)

lemma chain_inv_valid: "chain_inv ch \<Longrightarrow> is_valid_from ch 1 = Inr True"
  by (simp add: is_valid_from_True_iff chain_inv_block_ok)

subsection \<open>Concrete ledgers and runs\<close>

lemma add_block_ok:
  assumes "chain bc \<noteq> []" and "\<forall>e \<in> set evs. serialisable (PDict (payload e))"
  shows "\<exists>b clk'. add_block evs bc clk = (Inr b, bc\<lparr>chain := chain bc @ [b]\<rparr>, clk')
           \<and> index b = int (length (chain bc))
           \<and> previous_hash b = hash (last (chain bc))
           \<and> events b = fst (to_dicts evs clk) \<and> nonce b = 0
           \<and> compute_hash b = Inr (hash b)"
proof -
  obtain r bc' clk' where eq: "add_block evs bc clk = (r, bc', clk')"
    by (metis prod_cases3)
  from assms obtain b where "fst (add_block evs bc clk) = Inr b"
    using add_block_succeeds by blast
  with eq have r: "r = Inr b" by simp
  from add_block_result [OF eq] r show ?thesis
    using eq by auto
qed

lemma fresh_ledger_chain:
  "\<exists>g. chain fresh_ledger = [g]
       \<and> Blockchain_init example_clock = (Inr fresh_ledger, \<lambda>n. example_clock (Suc (Suc n)))
       \<and> index g = 0 \<and> events g = [genesis_event (example_clock 1)]
       \<and> compute_hash g = Inr (hash g)"
proof -
  obtain g where g: "Blockchain_init example_clock
        = (Inr \<lparr>chain = [g]\<rparr>, \<lambda>n. example_clock (Suc (Suc n)))"
      "index g = 0" "events g = [genesis_event (example_clock 1)]"
      "compute_hash g = Inr (hash g)"
    using Blockchain_init_result [of example_clock] by blast
  then have "fresh_ledger = \<lparr>chain = [g]\<rparr>"
    by (simp add: fresh_ledger_def)
  then have "chain fresh_ledger = [g]"
    by (metis blockchain.select_convs(1))
  with g \<open>fresh_ledger = \<lparr>chain = [g]\<rparr>\<close> show ?thesis by auto
qed

lemma reachable_fresh_ledger: "reachable fresh_ledger"
  using fresh_ledger_chain reachable.constructed by blast

lemma reachable_ledger1: "reachable ledger1"
proof -
  have "add_block [example_event] fresh_ledger example_clock
      = (fst (add_block [example_event] fresh_ledger example_clock), ledger1,
         snd (snd (add_block [example_event] fresh_ledger example_clock)))"
    by (simp add: ledger1_def)
  with reachable_fresh_ledger show ?thesis
    by (rule reachable.appended)
qed

lemma length_ledger1: "length (chain ledger1) = 2"
proof -
  obtain g where g: "chain fresh_ledger = [g]"
    using fresh_ledger_chain by blast
  then have "chain fresh_ledger \<noteq> []" by simp
  moreover have "\<forall>e \<in> set [example_event]. serialisable (PDict (payload e))"
    by (simp add: example_event_def)
  ultimately obtain b clk' where
    "add_block [example_event] fresh_ledger example_clock
       = (Inr b, fresh_ledger\<lparr>chain := chain fresh_ledger @ [b]\<rparr>, clk')"
    using add_block_ok by blast
  with g show ?thesis by (simp add: ledger1_def)
qed

lemma reachable_valid:
  assumes "reachable bc"
  shows "fst (is_valid bc) = Inr True"
proof -
  from assms have "chain_inv (chain bc)" by (rule reachable_chain_inv)
  then have "is_valid_from (chain bc) 1 = Inr True" by (rule chain_inv_valid)
  then show ?thesis by (simp add: is_valid_def)
qed

lemma reachable_add_blocks:
  "reachable bc \<Longrightarrow> reachable (fst (add_blocks batches bc clk))"
proof (induction batches arbitrary: bc clk)
  case Nil
  then show ?case by simp
next
  case (Cons evs rest)
  obtain r bc' clk' where eq: "add_block evs bc clk = (r, bc', clk')"
    by (metis prod_cases3)
  with Cons.prems have "reachable bc'"
    by (rule reachable.appended)
  then have "reachable (fst (add_blocks rest bc' clk'))"
    by (rule Cons.IH)
  with eq show ?case by simp
qed

subsection \<open>Untampered ledgers are valid\<close>

text \<open>
  Claim C4. A ledger obtained by constructing a fresh instance and performing \<open>N\<close>
  sequential appends (\<open>N\<close> is the length of \<open>batches\<close>, and may be 0) is valid:
  \<^verbatim>\<open>is_valid\<close> returns \<^verbatim>\<open>True\<close>. With \<open>batches = []\<close> this is the freshly
  constructed, untouched ledger.
\<close>

theorem untampered_ledger_valid:
  assumes "Blockchain_init clk = (Inr bc0, clk0)"
  shows "fst (is_valid (fst (add_blocks batches bc0 clk0))) = Inr True"
proof -
  from assms have "reachable bc0" by (rule reachable.constructed)
  then have "reachable (fst (add_blocks batches bc0 clk0))"
    by (rule reachable_add_blocks)
  then show ?thesis by (rule reachable_valid)
qed

theorem untampered_ledger_valid_witness:
  "fst (is_valid (fst (add_blocks [] fresh_ledger (\<lambda>n. example_clock (Suc (Suc n)))))) = Inr True
   \<and> fst (is_valid (fst (add_blocks [[example_event], [], [example_event, example_event]]
        fresh_ledger (\<lambda>n. example_clock (Suc (Suc n)))))) = Inr True"
proof -
  obtain g where "Blockchain_init example_clock
      = (Inr fresh_ledger, \<lambda>n. example_clock (Suc (Suc n)))"
    using fresh_ledger_chain by blast
  then show ?thesis
    using untampered_ledger_valid [of example_clock fresh_ledger "\<lambda>n. example_clock (Suc (Suc n))"]
    by blast
qed

subsection \<open>Genesis and the index invariant\<close>

text \<open>
  Claim C9. Constructing a ledger never fails and creates exactly one block: its index
  is 0, its \<^verbatim>\<open>previous_hash\<close> is 64 times the character 0, which is the length of every
  SHA-256 hex digest, its events are the single synthetic \<^verbatim>\<open>GENESIS\<close> event, and its
  \<^verbatim>\<open>hash\<close> is the digest computed from it. In every reachable ledger the chain is not
  empty and the block at position \<open>i\<close> has index \<open>i\<close>.
\<close>

theorem genesis_and_indices:
  "(\<exists>g. Blockchain_init clk = (Inr \<lparr>chain = [g]\<rparr>, \<lambda>n. clk (Suc (Suc n)))
        \<and> index g = 0
        \<and> previous_hash g = replicate 64 (CHR ''0'')
        \<and> (\<forall>d. length (previous_hash g) = length (sha256_hex d))
        \<and> events g = [genesis_event (clk 1)]
        \<and> compute_hash g = Inr (hash g))
   \<and> (reachable bc \<longrightarrow>
        chain bc \<noteq> [] \<and> (\<forall>i < length (chain bc). index (chain bc ! i) = int i))"
proof -
  obtain g where g: "Blockchain_init clk = (Inr \<lparr>chain = [g]\<rparr>, \<lambda>n. clk (Suc (Suc n)))"
      "index g = 0" "previous_hash g = replicate 64 (CHR ''0'')"
      "events g = [genesis_event (clk 1)]" "compute_hash g = Inr (hash g)"
    using Blockchain_init_result [of clk] by blast
  from g(3) have "\<forall>d. length (previous_hash g) = length (sha256_hex d)"
    by (simp add: length_sha256_hex)
  with g have first: "\<exists>g. Blockchain_init clk = (Inr \<lparr>chain = [g]\<rparr>, \<lambda>n. clk (Suc (Suc n)))
        \<and> index g = 0
        \<and> previous_hash g = replicate 64 (CHR ''0'')
        \<and> (\<forall>d. length (previous_hash g) = length (sha256_hex d))
        \<and> events g = [genesis_event (clk 1)]
        \<and> compute_hash g = Inr (hash g)"
    by blast
  have "chain bc \<noteq> [] \<and> (\<forall>i < length (chain bc). index (chain bc ! i) = int i)"
    if "reachable bc"
    using reachable_chain_inv [OF that] by (simp add: chain_inv_def)
  with first show ?thesis by blast
qed

theorem genesis_and_indices_witness:
  "reachable ledger1 \<and> chain ledger1 \<noteq> [] \<and> length (chain ledger1) = 2
   \<and> index (chain ledger1 ! 0) = 0 \<and> index (chain ledger1 ! 1) = 1"
proof -
  from genesis_and_indices [of example_clock ledger1] reachable_ledger1
  have "chain ledger1 \<noteq> []"
    and all: "\<forall>i < length (chain ledger1). index (chain ledger1 ! i) = int i"
    by blast+
  from all length_ledger1 have "index (chain ledger1 ! 0) = int 0"
    "index (chain ledger1 ! 1) = int 1"
    by simp_all
  with \<open>chain ledger1 \<noteq> []\<close> reachable_ledger1 length_ledger1 show ?thesis
    by simp
qed

subsection \<open>Appending\<close>



text \<open>
  Claim C5. The claim says that an empty batch is rejected before the ledger changes.
  The code has no such check: on the freshly constructed ledger, \<^verbatim>\<open>add_block([])\<close>
  raises nothing, returns a block with no events and appends it, so the chain has two
  blocks afterwards.
\<close>

theorem add_block_empty_batch_appends:
  "fst (add_block [] fresh_ledger example_clock)
     = Inr (last (chain (fst (snd (add_block [] fresh_ledger example_clock)))))
   \<and> events (last (chain (fst (snd (add_block [] fresh_ledger example_clock))))) = []
   \<and> length (chain fresh_ledger) = 1
   \<and> length (chain (fst (snd (add_block [] fresh_ledger example_clock)))) = 2"
proof -
  obtain g where g: "chain fresh_ledger = [g]"
    using fresh_ledger_chain by blast
  then have "chain fresh_ledger \<noteq> []" by simp
  moreover have "\<forall>e \<in> set ([] :: event list). serialisable (PDict (payload e))"
    by simp
  ultimately obtain b clk' where
    "add_block [] fresh_ledger example_clock
       = (Inr b, fresh_ledger\<lparr>chain := chain fresh_ledger @ [b]\<rparr>, clk')"
    "events b = fst (to_dicts [] example_clock)"
    using add_block_ok by blast
  with g show ?thesis by simp
qed

subsection \<open>What \<^verbatim>\<open>is_valid\<close> computes\<close>



subsection \<open>The genesis block is not checked\<close>

lemma is_valid_from_genesis_irrelevant:
  assumes "hash g = hash g'" and "1 \<le> i"
  shows "is_valid_from (g # rest) i = is_valid_from (g' # rest) i"
  using assms(2)
proof (induction "Suc (length rest) - i" arbitrary: i)
  case 0
  then show ?case by (simp add: is_valid_from_end)
next
  case (Suc n)
  then have i: "i < length (g # rest)" "i < length (g' # rest)" by auto
  from Suc.prems have cur: "(g # rest) ! i = (g' # rest) ! i"
    by (cases i) auto
  from Suc.prems assms(1) have prev: "hash ((g # rest) ! (i - 1)) = hash ((g' # rest) ! (i - 1))"
    by (cases "i - 1") auto
  from Suc have IH: "is_valid_from (g # rest) (Suc i) = is_valid_from (g' # rest) (Suc i)"
    by (intro Suc.hyps(1)) auto
  show ?case
    by (subst is_valid_from.simps, subst (2) is_valid_from.simps)
       (simp only: i cur prev IH if_True Let_def)
qed

text \<open>
  Claim C10. Two chains that agree on every block from index 1 on and on the stored
  \<^verbatim>\<open>hash\<close> of block 0 get the same result from \<^verbatim>\<open>is_valid\<close>, whatever the other fields
  of their blocks 0 are: the digest of block 0 is never recomputed.
\<close>

theorem genesis_content_not_validated:
  assumes "hash g = hash g'"
  shows "fst (is_valid \<lparr>chain = g # rest\<rparr>) = fst (is_valid \<lparr>chain = g' # rest\<rparr>)"
  using is_valid_from_genesis_irrelevant [OF assms, of 1 rest]
  by (simp add: is_valid_def)

subsection \<open>The example ledger, evaluated\<close>

lemma genesis_digest:
  "compute_hash \<lparr>index = 0, timestamp_utc = ''2026-01-01T00:00:00+00:00'',
        previous_hash = replicate 64 (CHR ''0''),
        events = [genesis_event ''2026-01-01T00:00:00+00:00''],
        nonce = 0, hash = []\<rparr>
   = Inr ''be634a86580e8b1864a622b807b3b64898cb51f6c3b0dd4c3eb1b00afebafa9e''"
  by code_simp

lemma fresh_ledger_eval:
  "chain fresh_ledger =
    [\<lparr>index = 0, timestamp_utc = ''2026-01-01T00:00:00+00:00'',
        previous_hash = replicate 64 (CHR ''0''),
        events = [genesis_event ''2026-01-01T00:00:00+00:00''],
        nonce = 0,
        hash = ''be634a86580e8b1864a622b807b3b64898cb51f6c3b0dd4c3eb1b00afebafa9e''\<rparr>]"
  by (simp add: fresh_ledger_def Blockchain_init_def create_genesis_block_def utc_now_iso_def
      example_clock_def genesis_digest)

lemma example_to_dicts:
  "fst (to_dicts [example_event] example_clock) =
     [[(''event_type'', PStr ''SOLICITATION_PUBLISHED''),
       (''actor_role'', PStr ''CONTRACTING_OFFICER''),
       (''actor_id'', PStr ''CO_001''),
       (''payload'', PDict [(''solicitation_id'', PStr ''SOL-1'')]),
       (''timestamp_utc'', PStr ''2026-01-01T00:00:00+00:00'')]]"
  "fst (utc_now_iso (snd (to_dicts [example_event] example_clock)))
     = ''2026-01-01T00:00:00+00:00''"
  by (simp_all add: to_dict_def asdict_def example_event_def utc_now_iso_def example_clock_def)

lemma block1_digest:
  "compute_hash \<lparr>index = 1, timestamp_utc = ''2026-01-01T00:00:00+00:00'',
        previous_hash = ''be634a86580e8b1864a622b807b3b64898cb51f6c3b0dd4c3eb1b00afebafa9e'',
        events = [[(''event_type'', PStr ''SOLICITATION_PUBLISHED''),
                   (''actor_role'', PStr ''CONTRACTING_OFFICER''),
                   (''actor_id'', PStr ''CO_001''),
                   (''payload'', PDict [(''solicitation_id'', PStr ''SOL-1'')]),
                   (''timestamp_utc'', PStr ''2026-01-01T00:00:00+00:00'')]],
        nonce = 0, hash = []\<rparr>
   = Inr ''940a2f4e61d1d28478cd922663575c8fb865fa06d64a85b624591c7d696adc5a''"
  by code_simp

lemma ledger1_eval:
  "chain ledger1 =
    [\<lparr>index = 0, timestamp_utc = ''2026-01-01T00:00:00+00:00'',
        previous_hash = replicate 64 (CHR ''0''),
        events = [genesis_event ''2026-01-01T00:00:00+00:00''],
        nonce = 0,
        hash = ''be634a86580e8b1864a622b807b3b64898cb51f6c3b0dd4c3eb1b00afebafa9e''\<rparr>,
     \<lparr>index = 1, timestamp_utc = ''2026-01-01T00:00:00+00:00'',
        previous_hash = ''be634a86580e8b1864a622b807b3b64898cb51f6c3b0dd4c3eb1b00afebafa9e'',
        events = [[(''event_type'', PStr ''SOLICITATION_PUBLISHED''),
                   (''actor_role'', PStr ''CONTRACTING_OFFICER''),
                   (''actor_id'', PStr ''CO_001''),
                   (''payload'', PDict [(''solicitation_id'', PStr ''SOL-1'')]),
                   (''timestamp_utc'', PStr ''2026-01-01T00:00:00+00:00'')]],
        nonce = 0,
        hash = ''940a2f4e61d1d28478cd922663575c8fb865fa06d64a85b624591c7d696adc5a''\<rparr>]"
proof -
  have ne: "chain fresh_ledger \<noteq> []" by (simp add: fresh_ledger_eval)
  show ?thesis
    unfolding ledger1_def add_block_unfold [OF ne] example_to_dicts
    by (simp add: fresh_ledger_eval block1_digest)
qed



theorem genesis_content_not_validated_witness:
  "hash tampered_genesis = hash (chain ledger1 ! 0)
   \<and> events tampered_genesis \<noteq> events (chain ledger1 ! 0)
   \<and> fst (is_valid \<lparr>chain = tampered_genesis # tl (chain ledger1)\<rparr>)
       = fst (is_valid \<lparr>chain = chain ledger1 ! 0 # tl (chain ledger1)\<rparr>)"
proof -
  have h: "hash tampered_genesis = hash (chain ledger1 ! 0)"
    by (simp add: tampered_genesis_def)
  have "events tampered_genesis \<noteq> events (chain ledger1 ! 0)"
    by (simp add: tampered_genesis_def ledger1_eval set_payload_def genesis_event_def)
  with h genesis_content_not_validated [OF h, of "tl (chain ledger1)"]
  show ?thesis by blast
qed

subsection \<open>Tampering\<close>




subsection \<open>Order of the keys\<close>











subsection \<open>Payloads without a JSON encoding\<close>





subsection \<open>What the fingerprint is computed from\<close>

text \<open>
  Claim C6, as stated, leaves out a field. Two blocks with the same \<^verbatim>\<open>index\<close>,
  \<^verbatim>\<open>timestamp_utc\<close>, \<^verbatim>\<open>previous_hash\<close> and \<^verbatim>\<open>events\<close> that differ in \<^verbatim>\<open>nonce\<close> have
  different fingerprints: \<^verbatim>\<open>nonce\<close> is part of the hashed dictionary.
\<close>

theorem nonce_is_hashed:
  "index (minimal_block\<lparr>nonce := 1\<rparr>) = index minimal_block
   \<and> timestamp_utc (minimal_block\<lparr>nonce := 1\<rparr>) = timestamp_utc minimal_block
   \<and> previous_hash (minimal_block\<lparr>nonce := 1\<rparr>) = previous_hash minimal_block
   \<and> events (minimal_block\<lparr>nonce := 1\<rparr>) = events minimal_block
   \<and> compute_hash minimal_block
       = Inr ''821417a63d3df462bf27f6e02c9a08499a15939be94530a39fa4e586caf9328d''
   \<and> compute_hash (minimal_block\<lparr>nonce := 1\<rparr>)
       = Inr ''f71ad4406819bb0b4c95c6530321be5e5cfb463ce0601dec3df9a4ccc32fc8a8''"
proof -
  have "compute_hash minimal_block
       = Inr ''821417a63d3df462bf27f6e02c9a08499a15939be94530a39fa4e586caf9328d''"
    by code_simp
  moreover have "compute_hash (minimal_block\<lparr>nonce := 1\<rparr>)
       = Inr ''f71ad4406819bb0b4c95c6530321be5e5cfb463ce0601dec3df9a4ccc32fc8a8''"
    by code_simp
  ultimately show ?thesis by simp
qed

text \<open>
  Claim C6, amended. The fingerprint is the SHA-256 hex digest of the UTF-8 bytes of the
  canonical encoding of the dictionary with exactly the keys \<^verbatim>\<open>index\<close>,
  \<^verbatim>\<open>timestamp_utc\<close>, \<^verbatim>\<open>previous_hash\<close>, \<^verbatim>\<open>events\<close> and \<^verbatim>\<open>nonce\<close>. It is a function of
  these five fields and of nothing else: two blocks that agree on them have the same
  fingerprint, whatever their \<^verbatim>\<open>hash\<close> fields hold, and no clock is read.
\<close>

theorem fingerprint_inputs:
  "compute_hash b =
     (case canonical_json (PDict [(''index'', PInt (index b)),
                                  (''timestamp_utc'', PStr (timestamp_utc b)),
                                  (''previous_hash'', PStr (previous_hash b)),
                                  (''events'', PList (map PDict (events b))),
                                  (''nonce'', PInt (nonce b))]) of
        Inl e \<Rightarrow> Inl e
      | Inr s \<Rightarrow> Inr (sha256_hex (utf8_encode s)))
   \<and> (index b = index b' \<and> timestamp_utc b = timestamp_utc b'
        \<and> previous_hash b = previous_hash b' \<and> events b = events b' \<and> nonce b = nonce b'
      \<longrightarrow> compute_hash b = compute_hash b')
   \<and> compute_hash (b\<lparr>hash := h\<rparr>) = compute_hash b"
  by (simp add: compute_hash_def block_obj_def)

theorem fingerprint_inputs_witness:
  "index (minimal_block\<lparr>hash := ''00ff''\<rparr>) = index minimal_block
   \<and> timestamp_utc (minimal_block\<lparr>hash := ''00ff''\<rparr>) = timestamp_utc minimal_block
   \<and> previous_hash (minimal_block\<lparr>hash := ''00ff''\<rparr>) = previous_hash minimal_block
   \<and> events (minimal_block\<lparr>hash := ''00ff''\<rparr>) = events minimal_block
   \<and> nonce (minimal_block\<lparr>hash := ''00ff''\<rparr>) = nonce minimal_block
   \<and> hash (minimal_block\<lparr>hash := ''00ff''\<rparr>) \<noteq> hash minimal_block
   \<and> compute_hash (minimal_block\<lparr>hash := ''00ff''\<rparr>) = compute_hash minimal_block"
proof -
  let ?b = "minimal_block\<lparr>hash := ''00ff''\<rparr>"
  have n: "hash ?b \<noteq> hash minimal_block"
    by (simp add: minimal_block_def)
  have f: "index ?b = index minimal_block" "timestamp_utc ?b = timestamp_utc minimal_block"
    "previous_hash ?b = previous_hash minimal_block" "events ?b = events minimal_block"
    "nonce ?b = nonce minimal_block"
    by simp_all
  with fingerprint_inputs [of ?b minimal_block "[]"]
  have "compute_hash ?b = compute_hash minimal_block" by blast
  with n f show ?thesis by blast
qed

end
